theory Spec2Isabelle
  imports Main
begin

section \<open>The GCS authentication shim of \<^verbatim>\<open>core/storage/gcp/gcp.go\<close>\<close>

text \<open>
  The file wraps an HTTP transport: \<^verbatim>\<open>RoundTrip\<close> renames the S3 signing headers of a
  request, attaches a bearer token taken from a one-cell token cache (refreshed from a
  credential source when needed) and hands the request to the backend transport.
  \<^verbatim>\<open>NewMinioClient\<close> normalises the endpoint address and decides whether that transport
  is installed.

  Go strings are byte sequences, as HOL's \<open>string\<close> is. A Go map is a partial function;
  \<^verbatim>\<open>http.Header\<close> is \<^verbatim>\<open>map[string][]string\<close>.
\<close>

subsection \<open>The string functions of Go's \<^verbatim>\<open>strings\<close> package that the file calls\<close>

definition xAmzPrefix :: string where
  "xAmzPrefix = ''X-Amz-''"

definition xGoogPrefix :: string where
  "xGoogPrefix = ''X-Goog-''"

text \<open>\<^verbatim>\<open>strings.HasPrefix(s, prefix)\<close> is
  \<^verbatim>\<open>len(s) >= len(prefix) && s[:len(prefix)] == prefix\<close>.\<close>

definition HasPrefix :: "string \<Rightarrow> string \<Rightarrow> bool" where
  "HasPrefix s pre = (length pre \<le> length s \<and> take (length pre) s = pre)"

text \<open>\<^verbatim>\<open>strings.Replace(s, old, new, n)\<close> for \<open>n \<ge> 0\<close> and a non-empty \<open>old\<close>: the first
  \<open>n\<close> non-overlapping occurrences of \<open>old\<close>, found from the left, are replaced by \<open>new\<close>.
  (With an empty \<open>old\<close> Go inserts \<open>new\<close> at rune boundaries; the file never does that, and
  the model returns \<open>s\<close> there.)\<close>

fun Replace :: "string \<Rightarrow> string \<Rightarrow> string \<Rightarrow> nat \<Rightarrow> string" where
  "Replace [] old new n = []"
| "Replace (c # cs) old new n =
     (if n = 0 \<or> old = [] then c # cs
      else if HasPrefix (c # cs) old
        then new @ Replace (drop (length old) (c # cs)) old new (n - 1)
        else c # Replace cs old new n)"

text \<open>\<^verbatim>\<open>strings.Contains(s, substr)\<close>: \<open>substr\<close> occurs in \<open>s\<close> at some position.\<close>

fun Contains :: "string \<Rightarrow> string \<Rightarrow> bool" where
  "Contains [] substr = (substr = [])"
| "Contains (c # cs) substr = (HasPrefix (c # cs) substr \<or> Contains cs substr)"

subsection \<open>Requests and the header-translation loop\<close>

type_synonym Header = "string \<rightharpoonup> string list"

record Request =
  Method :: string
  URL :: string
  Header :: Header
  Body :: string

text \<open>
  The body of the loop of \<^verbatim>\<open>RoundTrip\<close>, run when the iteration reaches key \<open>k\<close> of the
  current map \<open>h\<close>. Go does not produce an entry that was removed before the iteration
  reached it, hence the first case. Assignment comes before \<^verbatim>\<open>delete\<close>, as in the source.
\<close>

definition translate_entry :: "string \<Rightarrow> Header \<Rightarrow> Header" where
  "translate_entry k h =
     (case h k of
        None \<Rightarrow> h
      | Some v \<Rightarrow>
          if HasPrefix k xAmzPrefix
          then (h(Replace k xAmzPrefix xGoogPrefix 1 \<mapsto> v))(k := None)
          else h)"

text \<open>
  \<^verbatim>\<open>for k, v := range req.Header\<close>. The order in which Go walks a map is not specified, and
  an entry created during the walk may be produced or skipped. The list \<open>ks\<close> is the order
  the runtime chose. Every run of the loop is the fold over some \<open>ks\<close> that holds every
  key the map had when the loop began (\<open>dom h \<subseteq> set ks\<close>); keys of \<open>ks\<close> that are not in
  the map when their turn comes are skipped by \<open>translate_entry\<close>.
\<close>

definition translate_headers :: "string list \<Rightarrow> Header \<Rightarrow> Header" where
  "translate_headers ks h = fold translate_entry ks h"

text \<open>
  The map the loop has produced once it has gone through the keys in \<open>D\<close>, written out key
  by key. It is used only to reason about \<open>translate_headers\<close>.
\<close>

definition walked :: "string set \<Rightarrow> Header \<Rightarrow> Header" where
  "walked D h = (\<lambda>k.
     if HasPrefix k xAmzPrefix then (if k \<in> D then None else h k)
     else if HasPrefix k xGoogPrefix \<and> xAmzPrefix @ drop (length xGoogPrefix) k \<in> D
             \<and> h (xAmzPrefix @ drop (length xGoogPrefix) k) \<noteq> None
          then h (xAmzPrefix @ drop (length xGoogPrefix) k)
          else h k)"

text \<open>\<^verbatim>\<open>req.Header.Set(key, value)\<close> stores the one-element list under the canonical form of
  the key; the only key the file passes, \<^verbatim>\<open>Authorization\<close>, is its own canonical form.\<close>

definition Header_Set :: "Header \<Rightarrow> string \<Rightarrow> string \<Rightarrow> Header" where
  "Header_Set h key val = h(key \<mapsto> [val])"

subsection \<open>Tokens, errors and the collaborators of the transport\<close>

text \<open>\<^verbatim>\<open>oauth2.Token\<close>. Times are counted in nanoseconds, the unit of Go's clock.\<close>

record Token =
  AccessToken :: string
  TokenType :: string
  RefreshToken :: string
  Expiry :: int

text \<open>\<open>Wrap err msg\<close> is \<^verbatim>\<open>errors.Wrap(err, msg)\<close> for a non-nil \<open>err\<close>.\<close>

datatype error = Failure string | Wrap error string

text \<open>
  A call either returns its values or panics: a run-time panic (here a nil pointer
  dereference) unwinds the call and is not an error value.
\<close>

datatype 'a completion = Panics string | Returns 'a

record Response =
  StatusCode :: nat
  ResponseBody :: string

text \<open>
  \<^verbatim>\<open>oauth2.TokenSource\<close> is an interface implemented outside the repository. The model is an
  object that holds the answer it gives at each invocation of \<^verbatim>\<open>Token()\<close> and counts its
  invocations. By the interface's contract an answer is an error or a (non-nil) token.
\<close>

record TokenSource =
  answers :: "nat \<Rightarrow> error + Token"
  invoked :: nat

definition TokenSource_Token :: "TokenSource \<Rightarrow> (error + Token) \<times> TokenSource" where
  "TokenSource_Token src = (answers src (invoked src), src\<lparr>invoked := Suc (invoked src)\<rparr>)"

definition second :: int where
  "second = 1000000000"

definition expiryDelta :: int where
  "expiryDelta = 10 * second"

text \<open>
  Modelled from the spec: \<^verbatim>\<open>oauth2.Token.Valid\<close>, a method of the OAuth library that is not
  part of the repository. The spec: "a token is valid only if the current time is more than
  a fixed safety margin (10 seconds) before its expiry", a cache holding a token "whose
  expiry is more than 10 seconds in the future" is reused, and an absent token counts as not
  valid ("if absent or invalid, call the external credential source"). The source's own
  comment reads "here Valid() means the token won't be expired in 10 sec". The receiver may
  be nil, hence the option.
\<close>

definition Valid :: "int \<Rightarrow> Token option \<Rightarrow> bool" where
  "Valid timeNow t =
     (case t of None \<Rightarrow> False | Some tok \<Rightarrow> timeNow + expiryDelta < Expiry tok)"

text \<open>
  \<^verbatim>\<open>WrapHTTPTransport\<close>. The \<^verbatim>\<open>backend\<close> is the \<^verbatim>\<open>transport\<close> interface: what it returns for
  a request. \<^verbatim>\<open>currentToken\<close> is the atomic pointer cell; \<open>None\<close> is the nil pointer that
  \<^verbatim>\<open>Load\<close> returns before anything was stored.
\<close>

record WrapHTTPTransport =
  tokenSrc :: TokenSource
  backend :: "Request \<Rightarrow> error + Response"
  currentToken :: "Token option"

text \<open>What a call does to the outside, in the order it does it.\<close>

datatype event = TokenRequested | TokenStored Token | Delegated Request

text \<open>
  What a call of \<^verbatim>\<open>RoundTrip\<close> leaves behind: the returned pair, the transport object, the
  caller's request object (its headers are changed in place) and the events of the call.
\<close>

record outcome =
  result :: "(error + Response) completion"
  after :: WrapHTTPTransport
  sent :: Request
  events :: "event list"

text \<open>The last line of \<^verbatim>\<open>RoundTrip\<close>: \<^verbatim>\<open>return t.backend.RoundTrip(req)\<close>.\<close>

definition delegate :: "WrapHTTPTransport \<Rightarrow> Request \<Rightarrow> event list \<Rightarrow> outcome" where
  "delegate t req evs =
     \<lparr>result = Returns (backend t req), after = t, sent = req, events = evs @ [Delegated req]\<rparr>"

text \<open>
  \<^verbatim>\<open>RoundTrip\<close>. \<open>timeNow\<close> is the clock reading that \<^verbatim>\<open>Valid\<close> takes and \<open>ks\<close> the order
  in which the runtime walks the header map. The request is not nil and its header map is
  allocated, as \<^verbatim>\<open>http.Client\<close> guarantees for the requests it hands to a transport.
  In the first branch the source reads \<^verbatim>\<open>currentToken.AccessToken\<close> through the loaded
  pointer, which panics on nil.
\<close>

definition RoundTrip :: "int \<Rightarrow> string list \<Rightarrow> WrapHTTPTransport \<Rightarrow> Request \<Rightarrow> outcome" where
  "RoundTrip timeNow ks t req =
     (let req1 = req\<lparr>Header := translate_headers ks (Header req)\<rparr>;
          cur = currentToken t
      in if Valid timeNow cur then
           (case cur of
              None \<Rightarrow>
                \<lparr>result = Panics ''nil pointer dereference'', after = t, sent = req1,
                 events = []\<rparr>
            | Some tok \<Rightarrow>
                delegate t
                  (req1\<lparr>Header := Header_Set (Header req1) ''Authorization''
                                     (''Bearer '' @ AccessToken tok)\<rparr>) [])
         else
           (case TokenSource_Token (tokenSrc t) of
              (Inl err, src) \<Rightarrow>
                \<lparr>result = Returns (Inl (Wrap err ''failed to acquire token'')),
                 after = t\<lparr>tokenSrc := src\<rparr>, sent = req1, events = [TokenRequested]\<rparr>
            | (Inr newToken, src) \<Rightarrow>
                delegate (t\<lparr>tokenSrc := src, currentToken := Some newToken\<rparr>)
                  (req1\<lparr>Header := Header_Set (Header req1) ''Authorization''
                                     (''Bearer '' @ AccessToken newToken)\<rparr>)
                  [TokenRequested, TokenStored newToken]))"

subsection \<open>Construction\<close>

text \<open>
  What the two library constructors answer: \<open>DefaultTokenSource\<close> is the result of
  \<^verbatim>\<open>google.DefaultTokenSource(context.Background(), raw.DevstorageFullControlScope)\<close> and
  \<open>DefaultTransport secure\<close> that of \<^verbatim>\<open>minio.DefaultTransport(secure)\<close>.
\<close>

record env =
  DefaultTokenSource :: "error + TokenSource"
  DefaultTransport :: "bool \<Rightarrow> error + (Request \<Rightarrow> error + Response)"

definition NewWrapHTTPTransport :: "env \<Rightarrow> bool \<Rightarrow> error + WrapHTTPTransport" where
  "NewWrapHTTPTransport e secure =
     (case DefaultTokenSource e of
        Inl err \<Rightarrow> Inl (Wrap err ''failed to create default token source'')
      | Inr src \<Rightarrow>
          (case DefaultTransport e secure of
             Inl err \<Rightarrow> Inl (Wrap err ''failed to create default transport'')
           | Inr b \<Rightarrow> Inr \<lparr>tokenSrc = src, backend = b, currentToken = None\<rparr>))"

definition GcsDefaultAddress :: string where
  "GcsDefaultAddress = ''storage.googleapis.com''"

text \<open>
  The parts of \<^verbatim>\<open>minio.Options\<close> and of the credentials package that the file touches.
  \<open>NewStaticV2\<close> is \<^verbatim>\<open>credentials.NewStaticV2(id, secret, token)\<close>: static credentials with
  the V2 signature type.
\<close>

datatype SignatureType = SignatureV4 | SignatureV2 | SignatureAnonymous

datatype Credentials = Static string string string SignatureType | Provider string

definition NewStaticV2 :: "string \<Rightarrow> string \<Rightarrow> string \<Rightarrow> Credentials" where
  "NewStaticV2 ident secret token = Static ident secret token SignatureV2"

datatype RoundTripper = Wrapped WrapHTTPTransport | Supplied string

record Options =
  Creds :: "Credentials option"
  Secure :: bool
  Transport :: "RoundTripper option"
  Region :: string

text \<open>\<^verbatim>\<open>&minio.Options{}\<close>: every field at its zero value.\<close>

definition zero_Options :: Options where
  "zero_Options = \<lparr>Creds = None, Secure = False, Transport = None, Region = []\<rparr>"

text \<open>
  \<^verbatim>\<open>NewMinioClient\<close> ends, on both of its successful paths, in the call
  \<^verbatim>\<open>minio.New(address, opts)\<close> of the client library and returns what that call returns.
  \<open>minio_New address opts\<close> stands for that call with its two arguments.
\<close>

datatype construction = minio_New string Options

text \<open>
  Lines 77 to 88 of the source: the defaults for a nil options pointer and an empty
  address, then the collapse of a GCS address to the bare host name.
\<close>

definition endpoint_defaults :: "string \<Rightarrow> Options option \<Rightarrow> string \<times> Options" where
  "endpoint_defaults address opts =
     (let opts1 = (case opts of None \<Rightarrow> zero_Options | Some given \<Rightarrow> given);
          (address1, opts2) =
             (if address = [] then (GcsDefaultAddress, opts1\<lparr>Secure := True\<rparr>)
              else (address, opts1));
          address2 = (if Contains address1 GcsDefaultAddress then GcsDefaultAddress
                      else address1)
      in (address2, opts2))"

text \<open>\<^verbatim>\<open>NewMinioClient\<close>: the lines above, then the choice between the caller's credentials
  and the wrapped transport (lines 90 to 101).\<close>

definition NewMinioClient :: "env \<Rightarrow> string \<Rightarrow> Options option \<Rightarrow> error + construction" where
  "NewMinioClient e address opts =
     (case endpoint_defaults address opts of
        (address', opts') \<Rightarrow>
          if Creds opts' \<noteq> None then Inr (minio_New address' opts')
          else
            (case NewWrapHTTPTransport e (Secure opts') of
               Inl err \<Rightarrow> Inl (Wrap err ''failed to create default transport'')
             | Inr transport \<Rightarrow>
                 Inr (minio_New address'
                        (opts'\<lparr>Transport := Some (Wrapped transport),
                               Creds := Some (NewStaticV2 [] [] [])\<rparr>))))"

subsection \<open>Sample values\<close>

text \<open>Concrete tokens, collaborators, requests and options, at which the theorems below
  are instantiated.\<close>

definition cached_token :: Token where
  "cached_token =
     \<lparr>AccessToken = ''ya29.cached'', TokenType = ''Bearer'', RefreshToken = [],
      Expiry = 3600 * second\<rparr>"

definition fresh_token :: Token where
  "fresh_token =
     \<lparr>AccessToken = ''ya29.fresh'', TokenType = ''Bearer'', RefreshToken = [],
      Expiry = 7200 * second\<rparr>"

definition granting_source :: TokenSource where
  "granting_source = \<lparr>answers = (\<lambda>n. Inr fresh_token), invoked = 0\<rparr>"

definition failing_source :: TokenSource where
  "failing_source =
     \<lparr>answers = (\<lambda>n. Inl (Failure ''metadata server unreachable'')), invoked = 0\<rparr>"

definition ok_backend :: "Request \<Rightarrow> error + Response" where
  "ok_backend req = Inr \<lparr>StatusCode = 200, ResponseBody = []\<rparr>"

definition signed_request :: Request where
  "signed_request =
     \<lparr>Method = ''PUT'', URL = ''https://storage.googleapis.com/bucket/object'',
      Header = [''X-Amz-Date'' \<mapsto> [''20240101T000000Z''],
                ''Authorization'' \<mapsto> [''AWS4-HMAC-SHA256 Credential=none'']],
      Body = ''payload''\<rparr>"

definition walk_order :: "string list" where
  "walk_order = [''Authorization'', ''X-Amz-Date'']"

definition ambient_env :: env where
  "ambient_env =
     \<lparr>DefaultTokenSource = Inr granting_source, DefaultTransport = (\<lambda>secure. Inr ok_backend)\<rparr>"

definition static_options :: Options where
  "static_options =
     \<lparr>Creds = Some (Static ''AKIAEXAMPLE'' ''secret'' [] SignatureV4), Secure = False,
      Transport = None, Region = ''us-east-1''\<rparr>"

section \<open>Properties\<close>

subsection \<open>Strings\<close>

lemma HasPrefix_iff: "HasPrefix s pre \<longleftrightarrow> (\<exists>r. s = pre @ r)"
  unfolding HasPrefix_def
  by (metis append_eq_conv_conj append_take_drop_id length_append le_add1)

lemma Replace_zero: "Replace s old new 0 = s"
  by (cases s) simp_all

lemma Replace_first_prefix:
  assumes "old \<noteq> []"
  shows "Replace (old @ r) old new 1 = new @ r"
proof -
  obtain c cs where e: "old @ r = c # cs" using assms by (cases old) auto
  have "HasPrefix (c # cs) old" using e HasPrefix_iff by metis
  then have "Replace (c # cs) old new 1 = new @ Replace (drop (length old) (c # cs)) old new 0"
    using assms by simp
  also have "drop (length old) (c # cs) = r" using e by (metis append_eq_conv_conj)
  finally show ?thesis using e by (simp add: Replace_zero)
qed

lemma not_amz_goog: "\<not> HasPrefix (xGoogPrefix @ r) xAmzPrefix"
  by (simp add: HasPrefix_def xAmzPrefix_def xGoogPrefix_def)

lemma walked_empty: "walked {} h = h"
  by (rule ext) (simp add: walked_def)

lemma translate_entry_walked: "translate_entry k (walked D h) = walked (insert k D) h"
proof (cases "HasPrefix k xAmzPrefix")
  case False
  then have "walked (insert k D) h = walked D h"
    by (intro ext) (auto simp: walked_def HasPrefix_iff)
  moreover have "translate_entry k (walked D h) = walked D h"
    using False by (simp add: translate_entry_def split: option.splits)
  ultimately show ?thesis by simp
next
  case True
  then obtain r where k: "k = xAmzPrefix @ r" by (auto simp: HasPrefix_iff)
  have rep: "Replace k xAmzPrefix xGoogPrefix 1 = xGoogPrefix @ r"
    unfolding k by (rule Replace_first_prefix) (simp add: xAmzPrefix_def)
  show ?thesis
  proof (cases "walked D h k")
    case None
    then have "k \<in> D \<or> h k = None" using True by (simp add: walked_def split: if_splits)
    then have "walked (insert k D) h = walked D h"
      by (intro ext) (auto simp: walked_def)
    then show ?thesis using None by (simp add: translate_entry_def)
  next
    case (Some v)
    then have kD: "k \<notin> D" and hk: "h k = Some v"
      using True by (simp_all add: walked_def split: if_splits)
    have "translate_entry k (walked D h) = ((walked D h)(xGoogPrefix @ r \<mapsto> v))(k := None)"
      using Some True rep by (simp add: translate_entry_def)
    also have "\<dots> = walked (insert k D) h"
    proof (rule ext)
      fix x
      show "(((walked D h)(xGoogPrefix @ r \<mapsto> v))(k := None)) x = walked (insert k D) h x"
      proof (cases "x = k")
        case True
        then show ?thesis using \<open>HasPrefix k xAmzPrefix\<close> by (simp add: walked_def)
      next
        case xk: False
        show ?thesis
        proof (cases "x = xGoogPrefix @ r")
          case True
          then show ?thesis using xk hk k not_amz_goog[of r]
            by (simp add: walked_def HasPrefix_iff)
        next
          case False
          then have "xAmzPrefix @ drop (length xGoogPrefix) x = k \<Longrightarrow> \<not> HasPrefix x xGoogPrefix"
            unfolding k by (auto simp: HasPrefix_iff)
          then show ?thesis using xk False
            by (auto simp: walked_def)
        qed
      qed
    qed
    finally show ?thesis .
  qed
qed

lemma fold_translate_entry_walked:
  "fold translate_entry ks (walked D h) = walked (D \<union> set ks) h"
  by (induction ks arbitrary: D) (simp_all add: translate_entry_walked)

lemma translate_headers_walked: "translate_headers ks h = walked (set ks) h"
  using fold_translate_entry_walked[of ks "{}" h]
  by (simp add: translate_headers_def walked_empty)

subsection \<open>Header translation\<close>

text \<open>The outcome of the loop does not depend on the order of the walk.\<close>

lemma translate_headers_order_irrelevant:
  assumes "dom h \<subseteq> set ks" and "dom h \<subseteq> set ks'"
  shows "translate_headers ks h = translate_headers ks' h"
proof (rule ext)
  fix k
  have out: "\<And>x. x \<notin> set ks \<Longrightarrow> h x = None" and out': "\<And>x. x \<notin> set ks' \<Longrightarrow> h x = None"
    using assms by auto
  show "translate_headers ks h k = translate_headers ks' h k"
    using out [of k] out' [of k]
      out [of "xAmzPrefix @ drop (length xGoogPrefix) k"]
      out' [of "xAmzPrefix @ drop (length xGoogPrefix) k"]
    by (auto simp: translate_headers_walked walked_def)
qed

text \<open>
  What the loop does to the signing headers: once it has walked every key of the map, no
  name with the prefix \<^verbatim>\<open>X-Amz-\<close> is left and each such header's value list sits under the
  name with \<^verbatim>\<open>X-Goog-\<close> in its place.
\<close>

lemma translate_headers_step_renames:
  assumes "dom h \<subseteq> set ks"
  shows "(\<forall>k. HasPrefix k ''X-Amz-'' \<longrightarrow> translate_headers ks h k = None) \<and>
         (\<forall>rest v. h (''X-Amz-'' @ rest) = Some v \<longrightarrow>
              translate_headers ks h (''X-Goog-'' @ rest) = Some v)"
proof (intro conjI allI impI)
  fix k assume "HasPrefix k ''X-Amz-''"
  then have p: "HasPrefix k xAmzPrefix" by (simp add: xAmzPrefix_def)
  show "translate_headers ks h k = None"
  proof (cases "k \<in> set ks")
    case True then show ?thesis using p by (simp add: translate_headers_walked walked_def)
  next
    case False
    then have "h k = None" using assms by auto
    then show ?thesis using p by (simp add: translate_headers_walked walked_def)
  qed
next
  fix rest v assume "h (''X-Amz-'' @ rest) = Some v"
  then have hv: "h (xAmzPrefix @ rest) = Some v" by (simp add: xAmzPrefix_def)
  then have "xAmzPrefix @ rest \<in> set ks" using assms by auto
  then have "translate_headers ks h (xGoogPrefix @ rest) = Some v"
    using hv not_amz_goog[of rest]
    by (simp add: translate_headers_walked walked_def HasPrefix_iff)
  then show "translate_headers ks h (''X-Goog-'' @ rest) = Some v"
    by (simp add: xGoogPrefix_def)
qed

text \<open>
  Claim C7, as stated, fails: a header whose name does not start with \<^verbatim>\<open>X-Amz-\<close> is
  overwritten when its name is the \<^verbatim>\<open>X-Goog-\<close> counterpart of a signing header of the same
  request. Here \<^verbatim>\<open>X-Goog-Date\<close> holds \<open>[''b'']\<close> before the loop and \<open>[''a'']\<close>, the
  value list of \<^verbatim>\<open>X-Amz-Date\<close>, after it.
\<close>

theorem other_header_overwritten:
  "\<not> HasPrefix ''X-Goog-Date'' ''X-Amz-'' \<and>
   [''X-Amz-Date'' \<mapsto> [''a''], ''X-Goog-Date'' \<mapsto> [''b'']] ''X-Goog-Date'' = Some [''b''] \<and>
   translate_headers [''X-Amz-Date'', ''X-Goog-Date'']
     [''X-Amz-Date'' \<mapsto> [''a''], ''X-Goog-Date'' \<mapsto> [''b'']] ''X-Goog-Date'' = Some [''a'']"
  by (simp add: translate_headers_def translate_entry_def HasPrefix_def
        xAmzPrefix_def xGoogPrefix_def)

text \<open>
  Claim C7, amended. A header whose name does not start with \<^verbatim>\<open>X-Amz-\<close>, and whose name is
  not the \<^verbatim>\<open>X-Goog-\<close> counterpart of an \<^verbatim>\<open>X-Amz-\<close> header present on the request, keeps its
  name and its value list through the header-translation step, in whatever order the map is
  walked.
\<close>

theorem other_headers_untouched:
  assumes "\<not> HasPrefix k ''X-Amz-''"
    and "\<not> (\<exists>rest v. k = ''X-Goog-'' @ rest \<and> h (''X-Amz-'' @ rest) = Some v)"
  shows "translate_headers ks h k = h k"
proof -
  have "\<not> HasPrefix k xAmzPrefix" using assms(1) by (simp add: xAmzPrefix_def)
  moreover have "HasPrefix k xGoogPrefix \<Longrightarrow> h (xAmzPrefix @ drop (length xGoogPrefix) k) = None"
    using assms(2) by (auto simp: HasPrefix_iff xAmzPrefix_def xGoogPrefix_def)
  ultimately show ?thesis by (auto simp: translate_headers_walked walked_def)
qed

text \<open>The amended C7 at the header \<^verbatim>\<open>Host\<close> of a request that also has a signing header.\<close>

theorem other_headers_untouched_witness:
  "\<not> HasPrefix ''Host'' ''X-Amz-'' \<and>
   \<not> (\<exists>rest v. ''Host'' = ''X-Goog-'' @ rest \<and>
       [''X-Amz-Date'' \<mapsto> [''a''], ''Host'' \<mapsto> [''b'']] (''X-Amz-'' @ rest) = Some v) \<and>
   translate_headers [''X-Amz-Date'', ''Host'']
     [''X-Amz-Date'' \<mapsto> [''a''], ''Host'' \<mapsto> [''b'']] ''Host'' = Some [''b'']"
proof -
  let ?h = "[''X-Amz-Date'' \<mapsto> [''a''], ''Host'' \<mapsto> [''b'']]"
  have p: "\<not> HasPrefix ''Host'' ''X-Amz-''" by (simp add: HasPrefix_def)
  have q: "\<not> (\<exists>rest v. ''Host'' = ''X-Goog-'' @ rest \<and> ?h (''X-Amz-'' @ rest) = Some v)"
    by simp
  have "translate_headers [''X-Amz-Date'', ''Host''] ?h ''Host'' = ?h ''Host''"
    by (rule other_headers_untouched [OF p q])
  also have "?h ''Host'' = Some [''b'']" by simp
  finally show ?thesis using p q by blast
qed

subsection \<open>The token cache and the bearer header\<close>


lemma Valid_Some: "Valid timeNow (Some tok) \<longleftrightarrow> timeNow + 10 * second < Expiry tok"
  by (simp add: Valid_def expiryDelta_def)

lemma Valid_None: "\<not> Valid timeNow None"
  by (simp add: Valid_def)

lemma RoundTrip_valid:
  assumes "Valid timeNow (currentToken t)" and "currentToken t = Some tok"
  shows "RoundTrip timeNow ks t req =
           delegate t (req\<lparr>Header := Header_Set (translate_headers ks (Header req))
                          ''Authorization'' (''Bearer '' @ AccessToken tok)\<rparr>) []"
  using assms by (simp add: RoundTrip_def Let_def)

lemma RoundTrip_refresh_error:
  assumes "\<not> Valid timeNow (currentToken t)"
    and "answers (tokenSrc t) (invoked (tokenSrc t)) = Inl err"
  shows "RoundTrip timeNow ks t req =
           \<lparr>result = Returns (Inl (Wrap err ''failed to acquire token'')),
            after = t\<lparr>tokenSrc := (tokenSrc t)\<lparr>invoked := Suc (invoked (tokenSrc t))\<rparr>\<rparr>,
            sent = req\<lparr>Header := translate_headers ks (Header req)\<rparr>,
            events = [TokenRequested]\<rparr>"
  using assms by (simp add: RoundTrip_def Let_def TokenSource_Token_def)

lemma RoundTrip_refresh_ok:
  assumes "\<not> Valid timeNow (currentToken t)"
    and "answers (tokenSrc t) (invoked (tokenSrc t)) = Inr newToken"
  shows "RoundTrip timeNow ks t req =
           delegate (t\<lparr>tokenSrc := (tokenSrc t)\<lparr>invoked := Suc (invoked (tokenSrc t))\<rparr>,
                       currentToken := Some newToken\<rparr>)
             (req\<lparr>Header := Header_Set (translate_headers ks (Header req))
                          ''Authorization'' (''Bearer '' @ AccessToken newToken)\<rparr>)
             [TokenRequested, TokenStored newToken]"
  using assms by (simp add: RoundTrip_def Let_def TokenSource_Token_def)

text \<open>Apart from \<^verbatim>\<open>Authorization\<close>, the headers a call leaves on the request are those of
  the header-translation step.\<close>

lemma RoundTrip_sent_headers:
  assumes "k \<noteq> ''Authorization''"
  shows "Header (sent (RoundTrip timeNow ks t req)) k = translate_headers ks (Header req) k"
  using assms
  by (simp add: RoundTrip_def Let_def delegate_def Header_Set_def TokenSource_Token_def
        split: option.splits sum.splits prod.splits)

text \<open>A request that a call delegates is the request the call leaves behind.\<close>

lemma RoundTrip_delegated_is_sent:
  assumes "Delegated r \<in> set (events (RoundTrip timeNow ks t req))"
  shows "r = sent (RoundTrip timeNow ks t req)"
  using assms
  by (auto simp: RoundTrip_def Let_def delegate_def TokenSource_Token_def
        split: if_splits option.splits sum.splits prod.splits)

text \<open>
  Claim C1. For every request passed to \<^verbatim>\<open>RoundTrip\<close>, whatever the order \<open>ks\<close> in which
  the runtime walks the header map (it reaches every key the map has when the loop starts),
  after the header-translation step no header whose name starts with \<^verbatim>\<open>X-Amz-\<close> remains,
  and for each such header of the original request the header named with \<^verbatim>\<open>X-Goog-\<close> in
  place of that prefix, the rest of the name as it was, carries exactly the original value
  list. This holds of the map the loop produces, of the request object as the call leaves
  it on every path, and of every request the call hands to the backend transport.
\<close>

theorem RoundTrip_renames_signing_headers:
  assumes "dom (Header req) \<subseteq> set ks"
  shows "(\<forall>k. HasPrefix k ''X-Amz-'' \<longrightarrow>
            translate_headers ks (Header req) k = None \<and>
            Header (sent (RoundTrip timeNow ks t req)) k = None) \<and>
         (\<forall>rest v. Header req (''X-Amz-'' @ rest) = Some v \<longrightarrow>
            translate_headers ks (Header req) (''X-Goog-'' @ rest) = Some v \<and>
            Header (sent (RoundTrip timeNow ks t req)) (''X-Goog-'' @ rest) = Some v) \<and>
         (\<forall>r. Delegated r \<in> set (events (RoundTrip timeNow ks t req)) \<longrightarrow>
            (\<forall>k. HasPrefix k ''X-Amz-'' \<longrightarrow> Header r k = None) \<and>
            (\<forall>rest v. Header req (''X-Amz-'' @ rest) = Some v \<longrightarrow>
               Header r (''X-Goog-'' @ rest) = Some v))"
proof -
  let ?out = "RoundTrip timeNow ks t req"
  have gone: "translate_headers ks (Header req) k = None \<and> Header (sent ?out) k = None"
    if "HasPrefix k ''X-Amz-''" for k
  proof -
    have "k \<noteq> ''Authorization''" using that by (auto simp: HasPrefix_def)
    then have "Header (sent ?out) k = translate_headers ks (Header req) k"
      by (rule RoundTrip_sent_headers)
    moreover have "translate_headers ks (Header req) k = None"
      using translate_headers_step_renames [OF assms] that by blast
    ultimately show ?thesis by simp
  qed
  have moved: "translate_headers ks (Header req) (''X-Goog-'' @ rest) = Some v \<and>
               Header (sent ?out) (''X-Goog-'' @ rest) = Some v"
    if "Header req (''X-Amz-'' @ rest) = Some v" for rest v
  proof -
    have "''X-Goog-'' @ rest \<noteq> ''Authorization''" by simp
    then have "Header (sent ?out) (''X-Goog-'' @ rest)
                 = translate_headers ks (Header req) (''X-Goog-'' @ rest)"
      by (rule RoundTrip_sent_headers)
    moreover have "translate_headers ks (Header req) (''X-Goog-'' @ rest) = Some v"
      using translate_headers_step_renames [OF assms] that by blast
    ultimately show ?thesis by simp
  qed
  have delegated: "r = sent ?out" if "Delegated r \<in> set (events ?out)" for r
    using that by (rule RoundTrip_delegated_is_sent)
  show ?thesis using gone moved delegated by blast
qed

text \<open>The theorem of C1 at a signed request sent with a valid cached token.\<close>

theorem RoundTrip_renames_signing_headers_witness:
  "dom (Header signed_request) \<subseteq> set walk_order \<and>
   HasPrefix ''X-Amz-Date'' ''X-Amz-'' \<and>
   Header signed_request (''X-Amz-'' @ ''Date'') = Some [''20240101T000000Z''] \<and>
   Header (sent (RoundTrip 0 walk_order
      \<lparr>tokenSrc = granting_source, backend = ok_backend, currentToken = Some cached_token\<rparr>
      signed_request)) ''X-Amz-Date'' = None \<and>
   Header (sent (RoundTrip 0 walk_order
      \<lparr>tokenSrc = granting_source, backend = ok_backend, currentToken = Some cached_token\<rparr>
      signed_request)) ''X-Goog-Date'' = Some [''20240101T000000Z''] \<and>
   Delegated (sent (RoundTrip 0 walk_order
      \<lparr>tokenSrc = granting_source, backend = ok_backend, currentToken = Some cached_token\<rparr>
      signed_request))
     \<in> set (events (RoundTrip 0 walk_order
      \<lparr>tokenSrc = granting_source, backend = ok_backend, currentToken = Some cached_token\<rparr>
      signed_request))"
proof -
  let ?t = "\<lparr>tokenSrc = granting_source, backend = ok_backend,
             currentToken = Some cached_token\<rparr>"
  let ?out = "RoundTrip 0 walk_order ?t signed_request"
  have d: "dom (Header signed_request) \<subseteq> set walk_order"
    by (simp add: signed_request_def walk_order_def)
  have p: "HasPrefix ''X-Amz-Date'' ''X-Amz-''" by (simp add: HasPrefix_def)
  have g: "Header signed_request (''X-Amz-'' @ ''Date'') = Some [''20240101T000000Z'']"
    by (simp add: signed_request_def)
  have v: "Valid 0 (currentToken ?t)"
    by (simp add: Valid_def expiryDelta_def cached_token_def second_def)
  have e: "Delegated (sent ?out) \<in> set (events ?out)"
    using v by (simp add: RoundTrip_def Let_def delegate_def)
  from RoundTrip_renames_signing_headers [OF d, of 0 ?t] p g
  have "Header (sent ?out) ''X-Amz-Date'' = None"
    and "Header (sent ?out) (''X-Goog-'' @ ''Date'') = Some [''20240101T000000Z'']"
    by blast+
  then show ?thesis using d p g e by simp
qed

text \<open>
  Claim C2. When the token cache holds a token whose expiry is more than 10 seconds after
  the current time, \<^verbatim>\<open>RoundTrip\<close> does not invoke \<^verbatim>\<open>Token()\<close> of the credential source:
  the source's invocation count is unchanged and the only event of the call is the
  delegation. The request it delegates carries \<^verbatim>\<open>Authorization: Bearer\<close> followed by the
  cached token's access string.
\<close>

theorem valid_cached_token_reused:
  assumes "currentToken t = Some tok" and "timeNow + 10 * second < Expiry tok"
  shows "invoked (tokenSrc (after (RoundTrip timeNow ks t req))) = invoked (tokenSrc t) \<and>
         TokenRequested \<notin> set (events (RoundTrip timeNow ks t req)) \<and>
         events (RoundTrip timeNow ks t req) = [Delegated (sent (RoundTrip timeNow ks t req))] \<and>
         Header (sent (RoundTrip timeNow ks t req)) ''Authorization''
           = Some [''Bearer '' @ AccessToken tok]"
proof -
  have "Valid timeNow (currentToken t)" using assms by (simp add: Valid_Some)
  then show ?thesis
    using assms(1) by (simp add: RoundTrip_valid delegate_def Header_Set_def)
qed

text \<open>The theorem of C2 at sample values.\<close>

theorem valid_cached_token_reused_witness:
  "currentToken \<lparr>tokenSrc = granting_source, backend = ok_backend,
                 currentToken = Some cached_token\<rparr> = Some cached_token \<and>
   0 + 10 * second < Expiry cached_token \<and>
   invoked (tokenSrc (after (RoundTrip 0 walk_order
      \<lparr>tokenSrc = granting_source, backend = ok_backend, currentToken = Some cached_token\<rparr>
      signed_request))) = 0 \<and>
   TokenRequested \<notin> set (events (RoundTrip 0 walk_order
      \<lparr>tokenSrc = granting_source, backend = ok_backend, currentToken = Some cached_token\<rparr>
      signed_request)) \<and>
   Header (sent (RoundTrip 0 walk_order
      \<lparr>tokenSrc = granting_source, backend = ok_backend, currentToken = Some cached_token\<rparr>
      signed_request)) ''Authorization'' = Some [''Bearer ya29.cached'']"
proof -
  let ?t = "\<lparr>tokenSrc = granting_source, backend = ok_backend,
             currentToken = Some cached_token\<rparr>"
  have h1: "currentToken ?t = Some cached_token" by simp
  have h2: "0 + 10 * second < Expiry cached_token"
    by (simp add: cached_token_def second_def)
  from valid_cached_token_reused [OF h1 h2, of walk_order signed_request]
  show ?thesis using h1 h2 by (simp add: cached_token_def granting_source_def)
qed

text \<open>
  Claim C3. When the token cache is empty or holds a token that is not valid, \<^verbatim>\<open>RoundTrip\<close>
  invokes \<^verbatim>\<open>Token()\<close> exactly once in that call; when the source answers with a token, the
  call stores that token in the cache and only then delegates the request.
\<close>

theorem invalid_cache_refreshes_once:
  assumes "currentToken t = None \<or> \<not> Valid timeNow (currentToken t)"
  shows "invoked (tokenSrc (after (RoundTrip timeNow ks t req))) = Suc (invoked (tokenSrc t)) \<and>
         count_list (events (RoundTrip timeNow ks t req)) TokenRequested = 1 \<and>
         (\<forall>newToken. answers (tokenSrc t) (invoked (tokenSrc t)) = Inr newToken \<longrightarrow>
            events (RoundTrip timeNow ks t req)
              = [TokenRequested, TokenStored newToken,
                 Delegated (sent (RoundTrip timeNow ks t req))] \<and>
            currentToken (after (RoundTrip timeNow ks t req)) = Some newToken)"
proof -
  have nv: "\<not> Valid timeNow (currentToken t)" using assms by (auto simp: Valid_None)
  show ?thesis
  proof (cases "answers (tokenSrc t) (invoked (tokenSrc t))")
    case (Inl err)
    show ?thesis by (simp add: RoundTrip_refresh_error [OF nv Inl] Inl)
  next
    case (Inr newToken)
    show ?thesis by (simp add: RoundTrip_refresh_ok [OF nv Inr] Inr delegate_def)
  qed
qed

text \<open>The theorem of C3 at sample values.\<close>

theorem invalid_cache_refreshes_once_witness:
  "\<not> Valid (3595 * second) (currentToken \<lparr>tokenSrc = granting_source, backend = ok_backend,
                 currentToken = Some cached_token\<rparr>) \<and>
   answers granting_source (invoked granting_source) = Inr fresh_token \<and>
   invoked (tokenSrc (after (RoundTrip (3595 * second) walk_order
      \<lparr>tokenSrc = granting_source, backend = ok_backend, currentToken = Some cached_token\<rparr>
      signed_request))) = 1 \<and>
   count_list (events (RoundTrip (3595 * second) walk_order
      \<lparr>tokenSrc = granting_source, backend = ok_backend, currentToken = Some cached_token\<rparr>
      signed_request)) TokenRequested = 1 \<and>
   events (RoundTrip (3595 * second) walk_order
      \<lparr>tokenSrc = granting_source, backend = ok_backend, currentToken = Some cached_token\<rparr>
      signed_request)
     = [TokenRequested, TokenStored fresh_token,
        Delegated (sent (RoundTrip (3595 * second) walk_order
          \<lparr>tokenSrc = granting_source, backend = ok_backend,
           currentToken = Some cached_token\<rparr> signed_request))] \<and>
   currentToken (after (RoundTrip (3595 * second) walk_order
      \<lparr>tokenSrc = granting_source, backend = ok_backend, currentToken = Some cached_token\<rparr>
      signed_request)) = Some fresh_token"
proof -
  let ?t = "\<lparr>tokenSrc = granting_source, backend = ok_backend,
             currentToken = Some cached_token\<rparr>"
  have nv: "\<not> Valid (3595 * second) (currentToken ?t)"
    by (simp add: Valid_def expiryDelta_def cached_token_def second_def)
  then have h: "currentToken ?t = None \<or> \<not> Valid (3595 * second) (currentToken ?t)" ..
  have a: "answers (tokenSrc ?t) (invoked (tokenSrc ?t)) = Inr fresh_token"
    by (simp add: granting_source_def)
  from invalid_cache_refreshes_once [OF h, of walk_order signed_request] a
  show ?thesis using nv by (simp add: granting_source_def)
qed

text \<open>
  Claim C4. When the cached token is not valid and \<^verbatim>\<open>Token()\<close> answers with an error,
  \<^verbatim>\<open>RoundTrip\<close> returns that error wrapped with the message
  \<^verbatim>\<open>failed to acquire token\<close>, never calls the backend transport, and leaves the token
  cache as it was.
\<close>

theorem token_failure_aborts:
  assumes "\<not> Valid timeNow (currentToken t)"
    and "answers (tokenSrc t) (invoked (tokenSrc t)) = Inl err"
  shows "result (RoundTrip timeNow ks t req)
           = Returns (Inl (Wrap err ''failed to acquire token'')) \<and>
         (\<forall>r. Delegated r \<notin> set (events (RoundTrip timeNow ks t req))) \<and>
         currentToken (after (RoundTrip timeNow ks t req)) = currentToken t"
  by (simp add: RoundTrip_refresh_error [OF assms])

text \<open>The theorem of C4 at sample values.\<close>

theorem token_failure_aborts_witness:
  "\<not> Valid 0 (currentToken \<lparr>tokenSrc = failing_source, backend = ok_backend,
                 currentToken = None\<rparr>) \<and>
   answers failing_source (invoked failing_source)
     = Inl (Failure ''metadata server unreachable'') \<and>
   result (RoundTrip 0 walk_order
      \<lparr>tokenSrc = failing_source, backend = ok_backend, currentToken = None\<rparr> signed_request)
     = Returns (Inl (Wrap (Failure ''metadata server unreachable'')
                       ''failed to acquire token'')) \<and>
   (\<forall>r. Delegated r \<notin> set (events (RoundTrip 0 walk_order
      \<lparr>tokenSrc = failing_source, backend = ok_backend, currentToken = None\<rparr>
      signed_request))) \<and>
   currentToken (after (RoundTrip 0 walk_order
      \<lparr>tokenSrc = failing_source, backend = ok_backend, currentToken = None\<rparr>
      signed_request)) = None"
proof -
  let ?t = "\<lparr>tokenSrc = failing_source, backend = ok_backend, currentToken = None\<rparr>"
  have nv: "\<not> Valid 0 (currentToken ?t)" by (simp add: Valid_def)
  have a: "answers (tokenSrc ?t) (invoked (tokenSrc ?t))
             = Inl (Failure ''metadata server unreachable'')"
    by (simp add: failing_source_def)
  from token_failure_aborts [OF nv a, of walk_order signed_request]
  show ?thesis using nv a by simp
qed

text \<open>
  Claim C5. Whenever a call of \<^verbatim>\<open>RoundTrip\<close> delegates a request \<open>r\<close>, the
  \<^verbatim>\<open>Authorization\<close> header of \<open>r\<close> is the one-element list holding \<^verbatim>\<open>Bearer\<close>, a space
  and the access string of the token chosen for the call: the cached token when it is valid,
  the token just acquired otherwise. Whatever \<^verbatim>\<open>Authorization\<close> value the request had
  before is gone.
\<close>

theorem authorization_is_bearer_of_chosen_token:
  assumes "Delegated r \<in> set (events (RoundTrip timeNow ks t req))"
  shows "\<exists>tok. (if Valid timeNow (currentToken t) then currentToken t = Some tok
               else answers (tokenSrc t) (invoked (tokenSrc t)) = Inr tok) \<and>
           Header r ''Authorization'' = Some [''Bearer '' @ AccessToken tok]"
proof (cases "Valid timeNow (currentToken t)")
  case True
  then obtain tok where c: "currentToken t = Some tok"
    by (cases "currentToken t") (auto simp: Valid_None)
  from assms show ?thesis
    using True c by (auto simp: RoundTrip_valid [OF True c] delegate_def Header_Set_def)
next
  case False
  show ?thesis
  proof (cases "answers (tokenSrc t) (invoked (tokenSrc t))")
    case (Inl err)
    from assms show ?thesis by (simp add: RoundTrip_refresh_error [OF False Inl])
  next
    case (Inr newToken)
    from assms show ?thesis
      using False Inr
      by (auto simp: RoundTrip_refresh_ok [OF False Inr] delegate_def Header_Set_def)
  qed
qed

text \<open>The theorem of C5 at sample values.\<close>

theorem authorization_is_bearer_of_chosen_token_witness:
  "Delegated (sent (RoundTrip 0 walk_order
      \<lparr>tokenSrc = granting_source, backend = ok_backend, currentToken = Some cached_token\<rparr>
      signed_request))
     \<in> set (events (RoundTrip 0 walk_order
      \<lparr>tokenSrc = granting_source, backend = ok_backend, currentToken = Some cached_token\<rparr>
      signed_request)) \<and>
   Header signed_request ''Authorization'' = Some [''AWS4-HMAC-SHA256 Credential=none''] \<and>
   Header (sent (RoundTrip 0 walk_order
      \<lparr>tokenSrc = granting_source, backend = ok_backend, currentToken = Some cached_token\<rparr>
      signed_request)) ''Authorization'' = Some [''Bearer ya29.cached'']"
proof -
  let ?t = "\<lparr>tokenSrc = granting_source, backend = ok_backend,
             currentToken = Some cached_token\<rparr>"
  let ?out = "RoundTrip 0 walk_order ?t signed_request"
  have v: "Valid 0 (currentToken ?t)"
    by (simp add: Valid_def expiryDelta_def cached_token_def second_def)
  have d: "Delegated (sent ?out) \<in> set (events ?out)"
    using v by (simp add: RoundTrip_def Let_def delegate_def)
  from authorization_is_bearer_of_chosen_token [OF d] v
  have "Header (sent ?out) ''Authorization'' = Some [''Bearer '' @ AccessToken cached_token]"
    by auto
  then show ?thesis using d by (simp add: cached_token_def signed_request_def)
qed

text \<open>
  Claim C6. \<^verbatim>\<open>RoundTrip\<close> reuses a cached token without consulting the credential source
  only if the current time is more than the 10-second margin before the token's expiry.
\<close>

theorem reuse_only_outside_margin:
  assumes "currentToken t = Some tok"
    and "TokenRequested \<notin> set (events (RoundTrip timeNow ks t req))"
  shows "timeNow + 10 * second < Expiry tok"
proof (rule ccontr)
  assume "\<not> timeNow + 10 * second < Expiry tok"
  then have nv: "\<not> Valid timeNow (currentToken t)" using assms(1) by (simp add: Valid_Some)
  have "TokenRequested \<in> set (events (RoundTrip timeNow ks t req))"
  proof (cases "answers (tokenSrc t) (invoked (tokenSrc t))")
    case (Inl err)
    show ?thesis by (simp add: RoundTrip_refresh_error [OF nv Inl])
  next
    case (Inr newToken)
    show ?thesis by (simp add: RoundTrip_refresh_ok [OF nv Inr] delegate_def)
  qed
  with assms(2) show False by simp
qed

text \<open>The theorem of C6 at sample values.\<close>

theorem reuse_only_outside_margin_witness:
  "currentToken \<lparr>tokenSrc = granting_source, backend = ok_backend,
                 currentToken = Some cached_token\<rparr> = Some cached_token \<and>
   TokenRequested \<notin> set (events (RoundTrip 0 walk_order
      \<lparr>tokenSrc = granting_source, backend = ok_backend, currentToken = Some cached_token\<rparr>
      signed_request)) \<and>
   0 + 10 * second < Expiry cached_token"
proof -
  let ?t = "\<lparr>tokenSrc = granting_source, backend = ok_backend,
             currentToken = Some cached_token\<rparr>"
  have h1: "currentToken ?t = Some cached_token" by simp
  have v: "Valid 0 (currentToken ?t)"
    by (simp add: Valid_def expiryDelta_def cached_token_def second_def)
  have h2: "TokenRequested \<notin> set (events (RoundTrip 0 walk_order ?t signed_request))"
    using v by (simp add: RoundTrip_def Let_def delegate_def)
  from reuse_only_outside_margin [OF h1 h2] show ?thesis using h1 h2 by blast
qed

text \<open>
  Claim C10. A transport fresh from \<^verbatim>\<open>NewWrapHTTPTransport\<close> has an empty token cache;
  the validity check on the absent token is false; the first \<^verbatim>\<open>RoundTrip\<close> returns
  without a panic and its first action is to ask the credential source for a token.
\<close>

theorem first_call_takes_refresh_path:
  assumes "NewWrapHTTPTransport e secure = Inr t"
  shows "currentToken t = None \<and> \<not> Valid timeNow (currentToken t) \<and>
         (\<exists>r. result (RoundTrip timeNow ks t req) = Returns r) \<and>
         (\<exists>evs. events (RoundTrip timeNow ks t req) = TokenRequested # evs) \<and>
         invoked (tokenSrc (after (RoundTrip timeNow ks t req))) = Suc (invoked (tokenSrc t))"
proof -
  have c: "currentToken t = None"
    using assms by (auto simp: NewWrapHTTPTransport_def split: sum.splits)
  then have nv: "\<not> Valid timeNow (currentToken t)" by (simp add: Valid_None)
  show ?thesis
  proof (cases "answers (tokenSrc t) (invoked (tokenSrc t))")
    case (Inl err)
    show ?thesis using c nv by (simp add: RoundTrip_refresh_error [OF nv Inl])
  next
    case (Inr newToken)
    show ?thesis using c nv by (simp add: RoundTrip_refresh_ok [OF nv Inr] delegate_def)
  qed
qed

text \<open>The theorem of C10 at sample values.\<close>

theorem first_call_takes_refresh_path_witness:
  "NewWrapHTTPTransport ambient_env True
     = Inr \<lparr>tokenSrc = granting_source, backend = ok_backend, currentToken = None\<rparr> \<and>
   \<not> Valid 0 None \<and>
   (\<exists>r. result (RoundTrip 0 walk_order
      \<lparr>tokenSrc = granting_source, backend = ok_backend, currentToken = None\<rparr>
      signed_request) = Returns r) \<and>
   (\<exists>evs. events (RoundTrip 0 walk_order
      \<lparr>tokenSrc = granting_source, backend = ok_backend, currentToken = None\<rparr>
      signed_request) = TokenRequested # evs) \<and>
   invoked (tokenSrc (after (RoundTrip 0 walk_order
      \<lparr>tokenSrc = granting_source, backend = ok_backend, currentToken = None\<rparr>
      signed_request))) = 1"
proof -
  have c: "NewWrapHTTPTransport ambient_env True
     = Inr \<lparr>tokenSrc = granting_source, backend = ok_backend, currentToken = None\<rparr>"
    by (simp add: NewWrapHTTPTransport_def ambient_env_def)
  from first_call_takes_refresh_path [OF c, of 0 walk_order signed_request]
  show ?thesis using c by (simp add: granting_source_def)
qed

subsection \<open>The client factory\<close>


lemma Contains_iff: "Contains s substr \<longleftrightarrow> (\<exists>p q. s = p @ substr @ q)"
proof (induction s)
  case Nil
  show ?case by auto
next
  case (Cons c cs)
  show ?case
  proof
    assume "Contains (c # cs) substr"
    then consider "HasPrefix (c # cs) substr" | "Contains cs substr" by auto
    then show "\<exists>p q. c # cs = p @ substr @ q"
    proof cases
      case 1
      then obtain r where "c # cs = substr @ r" by (auto simp: HasPrefix_iff)
      then have "c # cs = [] @ substr @ r" by simp
      then show ?thesis by blast
    next
      case 2
      then obtain p q where "cs = p @ substr @ q" using Cons.IH by blast
      then have "c # cs = (c # p) @ substr @ q" by simp
      then show ?thesis by blast
    qed
  next
    assume "\<exists>p q. c # cs = p @ substr @ q"
    then obtain p q where e: "c # cs = p @ substr @ q" by blast
    show "Contains (c # cs) substr"
    proof (cases p)
      case Nil
      then have "HasPrefix (c # cs) substr" using e by (auto simp: HasPrefix_iff)
      then show ?thesis by simp
    next
      case (Cons c' p')
      then have "cs = p' @ substr @ q" using e by simp
      then have "Contains cs substr" using Cons.IH by blast
      then show ?thesis by simp
    qed
  qed
qed

lemma endpoint_defaults_address:
  "fst (endpoint_defaults address opts) =
     (if address = [] \<or> (\<exists>p q. address = p @ GcsDefaultAddress @ q) then GcsDefaultAddress
      else address)"
proof -
  have "Contains GcsDefaultAddress GcsDefaultAddress"
    unfolding Contains_iff by (metis append_Nil append_Nil2)
  then show ?thesis
    by (auto simp: endpoint_defaults_def Let_def Contains_iff split: option.splits)
qed

lemma endpoint_defaults_options:
  "snd (endpoint_defaults address opts) =
     (let given = (case opts of None \<Rightarrow> zero_Options | Some given \<Rightarrow> given)
      in if address = [] then given\<lparr>Secure := True\<rparr> else given)"
  by (simp add: endpoint_defaults_def Let_def split: option.splits)

lemma NewMinioClient_Inr:
  assumes "NewMinioClient e address opts = Inr (minio_New a built)"
  shows "a = fst (endpoint_defaults address opts)"
    and "Secure built = Secure (snd (endpoint_defaults address opts))"
  using assms
  by (auto simp: NewMinioClient_def split: prod.splits if_splits sum.splits)

text \<open>
  Claim C8. Whenever \<^verbatim>\<open>NewMinioClient\<close> reaches client construction, the address it passes
  on is: exactly \<^verbatim>\<open>storage.googleapis.com\<close>, with \<^verbatim>\<open>Secure\<close> set in the options, when
  the given address is empty; exactly \<^verbatim>\<open>storage.googleapis.com\<close> when the given address
  contains that string; and the given address itself when it is non-empty and does not
  contain that string.
\<close>

theorem endpoint_normalization:
  assumes "NewMinioClient e address opts = Inr (minio_New a built)"
  shows "(address = [] \<longrightarrow> a = ''storage.googleapis.com'' \<and> Secure built) \<and>
         ((\<exists>p q. address = p @ ''storage.googleapis.com'' @ q) \<longrightarrow>
             a = ''storage.googleapis.com'') \<and>
         (address \<noteq> [] \<and> \<not> (\<exists>p q. address = p @ ''storage.googleapis.com'' @ q) \<longrightarrow>
             a = address)"
  using NewMinioClient_Inr [OF assms]
  by (auto simp: endpoint_defaults_address endpoint_defaults_options GcsDefaultAddress_def
        Let_def)

text \<open>The theorem of C8 at sample values.\<close>

theorem endpoint_normalization_witness:
  "NewMinioClient ambient_env ''storage.googleapis.com:443'' (Some static_options)
     = Inr (minio_New ''storage.googleapis.com'' static_options) \<and>
   ''storage.googleapis.com:443'' = [] @ ''storage.googleapis.com'' @ '':443'' \<and>
   NewMinioClient ambient_env [] (Some static_options)
     = Inr (minio_New ''storage.googleapis.com'' (static_options\<lparr>Secure := True\<rparr>)) \<and>
   Secure (static_options\<lparr>Secure := True\<rparr>) \<and>
   NewMinioClient ambient_env ''play.min.io:9000'' (Some static_options)
     = Inr (minio_New ''play.min.io:9000'' static_options) \<and>
   ''play.min.io:9000'' \<noteq> [] \<and>
   \<not> (\<exists>p q. ''play.min.io:9000'' = p @ ''storage.googleapis.com'' @ q)"
proof -
  have c: "Creds static_options \<noteq> None" by (simp add: static_options_def)
  have e1: "endpoint_defaults ''storage.googleapis.com:443'' (Some static_options)
              = (''storage.googleapis.com'', static_options)"
    by (simp add: endpoint_defaults_def Let_def HasPrefix_def GcsDefaultAddress_def)
  have n1: "NewMinioClient ambient_env ''storage.googleapis.com:443'' (Some static_options)
     = Inr (minio_New ''storage.googleapis.com'' static_options)"
    using c by (simp add: NewMinioClient_def e1)
  have s: "''storage.googleapis.com:443'' = [] @ ''storage.googleapis.com'' @ '':443''"
    by simp
  have e2: "endpoint_defaults [] (Some static_options)
              = (''storage.googleapis.com'', static_options\<lparr>Secure := True\<rparr>)"
    by (simp add: endpoint_defaults_def Let_def HasPrefix_def GcsDefaultAddress_def)
  have n2: "NewMinioClient ambient_env [] (Some static_options)
     = Inr (minio_New ''storage.googleapis.com'' (static_options\<lparr>Secure := True\<rparr>))"
    using c by (simp add: NewMinioClient_def e2)
  have e3: "endpoint_defaults ''play.min.io:9000'' (Some static_options)
              = (''play.min.io:9000'', static_options)"
    by (simp add: endpoint_defaults_def Let_def HasPrefix_def GcsDefaultAddress_def)
  have n3: "NewMinioClient ambient_env ''play.min.io:9000'' (Some static_options)
     = Inr (minio_New ''play.min.io:9000'' static_options)"
    using c by (simp add: NewMinioClient_def e3)
  have t: "\<not> (\<exists>p q. ''play.min.io:9000'' = p @ ''storage.googleapis.com'' @ q)"
  proof
    assume "\<exists>p q. ''play.min.io:9000'' = p @ ''storage.googleapis.com'' @ q"
    then obtain p q where "''play.min.io:9000'' = p @ ''storage.googleapis.com'' @ q" by blast
    then have "length ''play.min.io:9000'' = length (p @ ''storage.googleapis.com'' @ q)"
      by (rule arg_cong)
    then show False by simp
  qed
  have ne: "''play.min.io:9000'' \<noteq> []" by simp
  from endpoint_normalization [OF n2] have "Secure (static_options\<lparr>Secure := True\<rparr>)" by blast
  with n1 s n2 n3 ne t show ?thesis by blast
qed

text \<open>
  Claim C9. Let \<open>reached\<close> be the options as they arrive at the credential dispatch of
  \<^verbatim>\<open>NewMinioClient\<close> (the caller's options after the endpoint defaults). If they carry
  credentials, the client is built from exactly these options: nothing is constructed or
  installed. Otherwise \<^verbatim>\<open>NewWrapHTTPTransport\<close> is called; when it succeeds the client is
  built from these options with the new transport installed and the empty static V2
  credentials, and when it fails no client is built. With respect to the caller's options
  the endpoint defaults leave the credentials and the transport as given, and the whole
  options as given when the address is not empty.
\<close>

theorem credential_dispatch:
  assumes "endpoint_defaults address opts = (a, reached)"
  shows "(Creds reached \<noteq> None \<longrightarrow>
            NewMinioClient e address opts = Inr (minio_New a reached)) \<and>
         (Creds reached = None \<longrightarrow>
            (\<forall>t. NewWrapHTTPTransport e (Secure reached) = Inr t \<longrightarrow>
                 NewMinioClient e address opts =
                   Inr (minio_New a (reached\<lparr>Transport := Some (Wrapped t),
                                             Creds := Some (NewStaticV2 [] [] [])\<rparr>))) \<and>
            (\<forall>err. NewWrapHTTPTransport e (Secure reached) = Inl err \<longrightarrow>
                 NewMinioClient e address opts =
                   Inl (Wrap err ''failed to create default transport''))) \<and>
         (\<forall>given. opts = Some given \<longrightarrow>
            Creds reached = Creds given \<and> Transport reached = Transport given \<and>
            (address \<noteq> [] \<longrightarrow> reached = given))"
  using assms
  by (auto simp: NewMinioClient_def endpoint_defaults_def Let_def split: if_splits)

text \<open>The theorem of C9 at sample values.\<close>

theorem credential_dispatch_witness:
  "endpoint_defaults ''play.min.io'' (Some static_options) = (''play.min.io'', static_options) \<and>
   Creds static_options \<noteq> None \<and>
   NewMinioClient ambient_env ''play.min.io'' (Some static_options)
     = Inr (minio_New ''play.min.io'' static_options) \<and>
   endpoint_defaults [] None = (''storage.googleapis.com'', zero_Options\<lparr>Secure := True\<rparr>) \<and>
   Creds (zero_Options\<lparr>Secure := True\<rparr>) = None \<and>
   NewWrapHTTPTransport ambient_env True
     = Inr \<lparr>tokenSrc = granting_source, backend = ok_backend, currentToken = None\<rparr> \<and>
   NewMinioClient ambient_env [] None
     = Inr (minio_New ''storage.googleapis.com''
         \<lparr>Creds = Some (Static [] [] [] SignatureV2), Secure = True,
          Transport = Some (Wrapped \<lparr>tokenSrc = granting_source, backend = ok_backend,
                                     currentToken = None\<rparr>),
          Region = []\<rparr>)"
proof -
  have e1: "endpoint_defaults ''play.min.io'' (Some static_options)
              = (''play.min.io'', static_options)"
    by (simp add: endpoint_defaults_def Let_def HasPrefix_def GcsDefaultAddress_def)
  have c1: "Creds static_options \<noteq> None" by (simp add: static_options_def)
  have e2: "endpoint_defaults [] None
              = (''storage.googleapis.com'', zero_Options\<lparr>Secure := True\<rparr>)"
    by (simp add: endpoint_defaults_def Let_def HasPrefix_def GcsDefaultAddress_def)
  have c2: "Creds (zero_Options\<lparr>Secure := True\<rparr>) = None" by (simp add: zero_Options_def)
  have w: "NewWrapHTTPTransport ambient_env True
     = Inr \<lparr>tokenSrc = granting_source, backend = ok_backend, currentToken = None\<rparr>"
    by (simp add: NewWrapHTTPTransport_def ambient_env_def)
  have r1: "NewMinioClient ambient_env ''play.min.io'' (Some static_options)
     = Inr (minio_New ''play.min.io'' static_options)"
    using credential_dispatch [OF e1, of ambient_env] c1 by blast
  have "NewMinioClient ambient_env [] None
     = Inr (minio_New ''storage.googleapis.com''
         (zero_Options\<lparr>Secure := True,
            Transport := Some (Wrapped \<lparr>tokenSrc = granting_source, backend = ok_backend,
                                     currentToken = None\<rparr>),
            Creds := Some (NewStaticV2 [] [] [])\<rparr>))"
    using credential_dispatch [OF e2, of ambient_env] c2 w by simp
  then have r2: "NewMinioClient ambient_env [] None
     = Inr (minio_New ''storage.googleapis.com''
         \<lparr>Creds = Some (Static [] [] [] SignatureV2), Secure = True,
          Transport = Some (Wrapped \<lparr>tokenSrc = granting_source, backend = ok_backend,
                                     currentToken = None\<rparr>),
          Region = []\<rparr>)"
    by (simp add: zero_Options_def NewStaticV2_def)
  from e1 c1 r1 e2 c2 w r2 show ?thesis by blast
qed

end
